theory Spec2Isabelle
  imports Main
begin

section \<open>The pre-packaged rules hook: data\<close>

text \<open>
  The development embeds \<^verbatim>\<open>usePrePackagedRules\<close>
  (\<^verbatim>\<open>use_pre_packaged_rules.tsx\<close>). The hook is asynchronous: every \<^verbatim>\<open>await\<close> and
  every \<^verbatim>\<open>window.setTimeout\<close> hands control back to the host, which later resumes the
  code with the result. Each stretch of code between two such points is one function on
  the hook's state, and the host's choices (a request fulfils or rejects, a timer fires,
  the effect is cleaned up) are events.
\<close>

text \<open>The response of \<^verbatim>\<open>getPrePackagedRulesStatus\<close>: the seven fields the hook reads.\<close>

record status_response =
  rules_custom_installed :: int
  rules_installed :: int
  rules_not_installed :: int
  rules_not_updated :: int
  timelines_installed :: int
  timelines_not_installed :: int
  timelines_not_updated :: int

text \<open>The two closures that the hook publishes in its status record.\<close>

datatype callback = CreateElasticRules | FetchPrePackagedRules

text \<open>
  The value of the \<^verbatim>\<open>prepackagedDataStatus\<close> state cell; \<^verbatim>\<open>number | null\<close> is
  \<^typ>\<open>int option\<close> and \<^verbatim>\<open>null\<close> is \<^term>\<open>None\<close>.
\<close>

record data_status =
  createPrePackagedRules :: "callback option"
  refetchPrePackagedRulesStatus :: "callback option"
  rulesCustomInstalled :: "int option"
  rulesInstalled :: "int option"
  rulesNotInstalled :: "int option"
  rulesNotUpdated :: "int option"
  timelinesInstalled :: "int option"
  timelinesNotInstalled :: "int option"
  timelinesNotUpdated :: "int option"

text \<open>\<^verbatim>\<open>UsePrePackagedRuleProps\<close>: each input is \<^verbatim>\<open>boolean | null\<close>.\<close>

record props =
  canUserCRUD :: "bool option"
  hasIndexWrite :: "bool option"
  isAuthenticated :: "bool option"
  hasEncryptionKey :: "bool option"
  isSignalIndexExists :: "bool option"

text \<open>The titles the hook passes to the toasters (constants of \<^verbatim>\<open>./translations\<close>).\<close>

datatype title =
    RULE_AND_TIMELINE_FETCH_FAILURE
  | RULE_AND_TIMELINE_PREPACKAGED_FAILURE
  | RULE_AND_TIMELINE_PREPACKAGED_SUCCESS

datatype toast = ErrorToast title | SuccessToast title

text \<open>
  The state: the three React state cells, the notification sink, the two variables of the
  effect's closure (\<^verbatim>\<open>isSubscribed\<close>, the abort controller), the locals of one
  \<^verbatim>\<open>createElasticRules\<close> invocation (the attempt counter, \<^verbatim>\<open>timeoutId\<close>, the promise it
  returned: \<^term>\<open>None\<close> while pending), what the host holds for that invocation (pending
  timers by id, requests in flight), and counters of the API calls that invocation made:
  \<^verbatim>\<open>createPrepackagedRules\<close>, and \<^verbatim>\<open>getPrePackagedRulesStatus\<close> from the timer's callback.
\<close>

record hook =
  prepackagedDataStatus :: data_status
  loadingCreatePrePackagedRules :: bool
  loading :: bool
  toaster :: "toast list"
  isSubscribed :: bool
  aborted :: bool
  iterationTryOfFetchingPrePackagedCount :: nat
  timeoutId :: int
  resolved :: "bool option"
  timers :: "int list"
  nextTimer :: int
  createInFlight :: nat
  statusInFlight :: nat
  createCalls :: nat
  statusCalls :: nat

datatype event =
    CreateResolved
  | CreateRejected
  | TimerFired
  | StatusResolved status_response
  | StatusRejected
  | Cleanup

datatype 'a outcome = Fulfilled 'a | Rejected

section \<open>The pre-packaged rules hook: operations\<close>

text \<open>The record every \<^verbatim>\<open>useState\<close> starts from (lines 77-90) in a freshly run effect.\<close>

definition null_status :: data_status where
  "null_status =
     \<lparr>createPrePackagedRules = None, refetchPrePackagedRulesStatus = None,
      rulesCustomInstalled = None, rulesInstalled = None, rulesNotInstalled = None,
      rulesNotUpdated = None, timelinesInstalled = None, timelinesNotInstalled = None,
      timelinesNotUpdated = None\<rparr>"

definition hook_init :: hook where
  "hook_init =
     \<lparr>prepackagedDataStatus = null_status, loadingCreatePrePackagedRules = False,
      loading = True, toaster = [], isSubscribed = True, aborted = False,
      iterationTryOfFetchingPrePackagedCount = 0, timeoutId = - 1, resolved = None,
      timers = [], nextTimer = 1, createInFlight = 0, statusInFlight = 0,
      createCalls = 0, statusCalls = 0\<rparr>"

text \<open>The record both success paths store (lines 105-115 and 178-188).\<close>

definition status_of :: "status_response \<Rightarrow> data_status" where
  "status_of r =
     \<lparr>createPrePackagedRules = Some CreateElasticRules,
      refetchPrePackagedRulesStatus = Some FetchPrePackagedRules,
      rulesCustomInstalled = Some (rules_custom_installed r),
      rulesInstalled = Some (rules_installed r),
      rulesNotInstalled = Some (rules_not_installed r),
      rulesNotUpdated = Some (rules_not_updated r),
      timelinesInstalled = Some (timelines_installed r),
      timelinesNotInstalled = Some (timelines_not_installed r),
      timelinesNotUpdated = Some (timelines_not_updated r)\<rparr>"

text \<open>
  Modelled from the spec: \<^verbatim>\<open>errorToToaster\<close> and \<^verbatim>\<open>displaySuccessToast\<close>
  (\<^verbatim>\<open>common/components/toasters\<close>) are not among the sources. The notification surface
  is a one-way sink that receives one event per call.
\<close>

definition errorToToaster :: "title \<Rightarrow> hook \<Rightarrow> hook" where
  "errorToToaster t s = s\<lparr>toaster := toaster s @ [ErrorToast t]\<rparr>"

definition displaySuccessToast :: "title \<Rightarrow> hook \<Rightarrow> hook" where
  "displaySuccessToast t s = s\<lparr>toaster := toaster s @ [SuccessToast t]\<rparr>"

text \<open>Settling a promise: only the first \<^verbatim>\<open>resolve\<close> counts.\<close>

definition resolve :: "bool \<Rightarrow> hook \<Rightarrow> hook" where
  "resolve b s = (case resolved s of None \<Rightarrow> s\<lparr>resolved := Some b\<rparr> | Some _ \<Rightarrow> s)"

text \<open>\<^verbatim>\<open>window.clearTimeout\<close> and \<^verbatim>\<open>stopTimeOut\<close> (lines 157-161).\<close>

definition clearTimeout :: "int \<Rightarrow> hook \<Rightarrow> hook" where
  "clearTimeout i s = s\<lparr>timers := removeAll i (timers s)\<rparr>"

definition stopTimeOut :: "hook \<Rightarrow> hook" where
  "stopTimeOut s = (if timeoutId s \<noteq> - 1 then clearTimeout (timeoutId s) s else s)"

text \<open>
  \<^verbatim>\<open>reFetch\<close> (line 162) only registers the callback with \<^verbatim>\<open>window.setTimeout\<close> and
  returns the timer's id; both call sites store the id in \<^verbatim>\<open>timeoutId\<close>.
\<close>

definition reFetch :: "hook \<Rightarrow> int \<times> hook" where
  "reFetch s = (nextTimer s, s\<lparr>timers := timers s @ [nextTimer s], nextTimer := nextTimer s + 1\<rparr>)"

definition schedule :: "hook \<Rightarrow> hook" where
  "schedule s = (case reFetch s of (i, s') \<Rightarrow> s'\<lparr>timeoutId := i\<rparr>)"

text \<open>
  The timer's callback up to its \<^verbatim>\<open>await\<close> (lines 164-168): count the attempt, issue the
  status query.
\<close>

definition reFetch_fired :: "hook \<Rightarrow> hook" where
  "reFetch_fired s =
     s\<lparr>iterationTryOfFetchingPrePackagedCount := iterationTryOfFetchingPrePackagedCount s + 1,
       statusCalls := statusCalls s + 1,
       statusInFlight := statusInFlight s + 1\<rparr>"

text \<open>
  The callback after the \<^verbatim>\<open>await\<close> (lines 169-198). A rejected query makes the
  \<^verbatim>\<open>await\<close> throw inside the timer's own async callback: nothing of the callback runs
  after it, and no handler of \<^verbatim>\<open>createElasticRules\<close> is on the stack.
\<close>

definition reFetch_resumed :: "status_response outcome \<Rightarrow> hook \<Rightarrow> hook" where
  "reFetch_resumed q s =
     (case q of
        Rejected \<Rightarrow> s
      | Fulfilled r \<Rightarrow>
          if isSubscribed s \<and>
             ((rules_not_installed r = 0 \<and> rules_not_updated r = 0 \<and>
               timelines_not_installed r = 0 \<and> timelines_not_updated r = 0) \<or>
              iterationTryOfFetchingPrePackagedCount s > 100)
          then resolve True
                 (stopTimeOut
                   (displaySuccessToast RULE_AND_TIMELINE_PREPACKAGED_SUCCESS
                     (s\<lparr>loadingCreatePrePackagedRules := False,
                        prepackagedDataStatus := status_of r\<rparr>)))
          else schedule s)"

text \<open>
  \<^verbatim>\<open>createElasticRules\<close> up to its \<^verbatim>\<open>await\<close> (lines 139-152): a new pending promise, the
  gate on the five inputs, the loading flag, the trigger request.
\<close>

definition truthy :: "bool option \<Rightarrow> bool" where
  "truthy b = (b = Some True)"

definition createElasticRules :: "props \<Rightarrow> hook \<Rightarrow> hook" where
  "createElasticRules p s =
     (if truthy (canUserCRUD p) \<and> truthy (hasIndexWrite p) \<and> truthy (isAuthenticated p) \<and>
         truthy (hasEncryptionKey p) \<and> truthy (isSignalIndexExists p)
      then s\<lparr>resolved := None, loadingCreatePrePackagedRules := True,
             createCalls := createCalls s + 1, createInFlight := createInFlight s + 1\<rparr>
      else resolve False (s\<lparr>resolved := None\<rparr>))"

text \<open>
  \<^verbatim>\<open>createElasticRules\<close> after the trigger request settled (lines 154-201 and the
  \<^verbatim>\<open>catch\<close> of lines 205-215).
\<close>

definition createElasticRules_resumed :: "unit outcome \<Rightarrow> hook \<Rightarrow> hook" where
  "createElasticRules_resumed q s =
     (case q of
        Fulfilled _ \<Rightarrow>
          if isSubscribed s
          then schedule (s\<lparr>iterationTryOfFetchingPrePackagedCount := 0, timeoutId := - 1\<rparr>)
          else s
      | Rejected \<Rightarrow>
          if isSubscribed s
          then resolve False
                 (errorToToaster RULE_AND_TIMELINE_PREPACKAGED_FAILURE
                   (s\<lparr>loadingCreatePrePackagedRules := False\<rparr>))
          else s)"

text \<open>The effect's cleanup (lines 221-224).\<close>

definition cleanup :: "hook \<Rightarrow> hook" where
  "cleanup s = s\<lparr>isSubscribed := False, aborted := True\<rparr>"

text \<open>
  \<^verbatim>\<open>fetchPrePackagedRules\<close> (lines 97-137), before and after its \<^verbatim>\<open>await\<close>.
\<close>

definition fetchPrePackagedRules :: "hook \<Rightarrow> hook" where
  "fetchPrePackagedRules s = s\<lparr>loading := True\<rparr>"

definition fetchPrePackagedRules_resumed :: "status_response outcome \<Rightarrow> hook \<Rightarrow> hook" where
  "fetchPrePackagedRules_resumed q s =
     (let s1 =
        (case q of
           Fulfilled r \<Rightarrow>
             if isSubscribed s then s\<lparr>prepackagedDataStatus := status_of r\<rparr> else s
         | Rejected \<Rightarrow>
             if isSubscribed s
             then errorToToaster RULE_AND_TIMELINE_FETCH_FAILURE
                    (s\<lparr>prepackagedDataStatus := null_status\<rparr>)
             else s)
      in if isSubscribed s1 then s1\<lparr>loading := False\<rparr> else s1)"

text \<open>
  One event of the host. A request can only settle while it is in flight and a timer can
  only fire while it is pending (the oldest first); an event that is not enabled leaves
  the state alone.
\<close>

fun step :: "event \<Rightarrow> hook \<Rightarrow> hook" where
  "step CreateResolved s =
     (if createInFlight s = 0 then s
      else createElasticRules_resumed (Fulfilled ()) (s\<lparr>createInFlight := createInFlight s - 1\<rparr>))"
| "step CreateRejected s =
     (if createInFlight s = 0 then s
      else createElasticRules_resumed Rejected (s\<lparr>createInFlight := createInFlight s - 1\<rparr>))"
| "step TimerFired s =
     (case timers s of
        [] \<Rightarrow> s
      | i # rest \<Rightarrow> reFetch_fired (s\<lparr>timers := rest\<rparr>))"
| "step (StatusResolved r) s =
     (if statusInFlight s = 0 then s
      else reFetch_resumed (Fulfilled r) (s\<lparr>statusInFlight := statusInFlight s - 1\<rparr>))"
| "step StatusRejected s =
     (if statusInFlight s = 0 then s
      else reFetch_resumed Rejected (s\<lparr>statusInFlight := statusInFlight s - 1\<rparr>))"
| "step Cleanup s = cleanup s"

fun run :: "event list \<Rightarrow> hook \<Rightarrow> hook" where
  "run [] s = s"
| "run (e # es) s = run es (step e s)"

text \<open>One polling attempt that returns a snapshot, and a sequence of them.\<close>

definition attempt :: "status_response \<Rightarrow> event list" where
  "attempt r = [TimerFired, StatusResolved r]"

fun attempts :: "status_response list \<Rightarrow> event list" where
  "attempts [] = []"
| "attempts (r # rs) = attempt r @ attempts rs"

text \<open>Nothing of an invocation is left with the host.\<close>

definition idle :: "hook \<Rightarrow> bool" where
  "idle s = (timers s = [] \<and> createInFlight s = 0 \<and> statusInFlight s = 0)"

text \<open>
  An invocation has ended for its caller: the promise is settled and nothing is left
  with the host.
\<close>

definition terminal :: "hook \<Rightarrow> bool" where
  "terminal s = (idle s \<and> resolved s \<noteq> None)"

text \<open>The trigger request of an invocation is in flight and nothing else is.\<close>

definition triggering :: "hook \<Rightarrow> bool" where
  "triggering s =
     (createInFlight s = 1 \<and> timers s = [] \<and> statusInFlight s = 0 \<and> resolved s = None)"

text \<open>
  The hook is subscribed and waits for the timer of its next attempt.
\<close>

definition polling :: "hook \<Rightarrow> bool" where
  "polling s =
     (isSubscribed s \<and> length (timers s) = 1 \<and> statusInFlight s = 0 \<and> resolved s = None)"

text \<open>The test of lines 171-174 on a snapshot.\<close>

definition all_zero :: "status_response \<Rightarrow> bool" where
  "all_zero r =
     (rules_not_installed r = 0 \<and> rules_not_updated r = 0 \<and>
      timelines_not_installed r = 0 \<and> timelines_not_updated r = 0)"

text \<open>
  What the hook's code can change for its users: the value the hook returns (lines
  228-232), the promise of \<^verbatim>\<open>createElasticRules\<close> and the notifications. With the API
  calls made, this is all that can be observed of it.
\<close>

definition visible ::
  "hook \<Rightarrow> data_status \<times> bool \<times> bool \<times> bool option \<times> toast list" where
  "visible s =
     (prepackagedDataStatus s, loading s, loadingCreatePrePackagedRules s, resolved s,
      toaster s)"

definition observed ::
  "hook \<Rightarrow> (data_status \<times> bool \<times> bool \<times> bool option \<times> toast list) \<times> nat \<times> nat" where
  "observed s = (visible s, createCalls s, statusCalls s)"

text \<open>Sample inputs.\<close>

definition all_granted :: props where
  "all_granted =
     \<lparr>canUserCRUD = Some True, hasIndexWrite = Some True, isAuthenticated = Some True,
      hasEncryptionKey = Some True, isSignalIndexExists = Some True\<rparr>"

definition snapshot :: "int \<Rightarrow> status_response" where
  "snapshot n =
     \<lparr>rules_custom_installed = 0, rules_installed = 5, rules_not_installed = n,
      rules_not_updated = 0, timelines_installed = 3, timelines_not_installed = 0,
      timelines_not_updated = 0\<rparr>"

section \<open>Facts about single steps and runs\<close>

lemmas hook_defs =
  errorToToaster_def displaySuccessToast_def resolve_def clearTimeout_def stopTimeOut_def
  reFetch_def schedule_def reFetch_fired_def reFetch_resumed_def createElasticRules_def
  createElasticRules_resumed_def cleanup_def truthy_def

lemma run_append: "run (xs @ ys) s = run ys (run xs s)"
  by (induction xs arbitrary: s) simp_all

lemma attempt_continue:
  assumes "polling s" "\<not> all_zero r" "iterationTryOfFetchingPrePackagedCount s < 100"
  shows "polling (run (attempt r) s)"
    and "iterationTryOfFetchingPrePackagedCount (run (attempt r) s) =
           iterationTryOfFetchingPrePackagedCount s + 1"
    and "statusCalls (run (attempt r) s) = statusCalls s + 1"
    and "visible (run (attempt r) s) = visible s"
    and "createCalls (run (attempt r) s) = createCalls s"
    and "createInFlight (run (attempt r) s) = createInFlight s"
  using assms
  by (cases "timers s"; simp add: polling_def all_zero_def attempt_def visible_def hook_defs)+

lemma attempts_continue:
  assumes "polling s" "list_all (\<lambda>r. \<not> all_zero r) rs"
    "iterationTryOfFetchingPrePackagedCount s + length rs \<le> 100"
  shows "polling (run (attempts rs) s) \<and>
     iterationTryOfFetchingPrePackagedCount (run (attempts rs) s) =
       iterationTryOfFetchingPrePackagedCount s + length rs \<and>
     statusCalls (run (attempts rs) s) = statusCalls s + length rs \<and>
     visible (run (attempts rs) s) = visible s \<and>
     createCalls (run (attempts rs) s) = createCalls s \<and>
     createInFlight (run (attempts rs) s) = createInFlight s"
  using assms
proof (induction rs arbitrary: s)
  case Nil
  then show ?case by simp
next
  case (Cons r rs)
  have lt: "iterationTryOfFetchingPrePackagedCount s < 100" using Cons.prems(3) by simp
  have nz: "\<not> all_zero r" using Cons.prems(2) by simp
  note a = attempt_continue [OF Cons.prems(1) nz lt]
  have "iterationTryOfFetchingPrePackagedCount (run (attempt r) s) + length rs \<le> 100"
    using a(2) Cons.prems(3) by simp
  from Cons.IH [OF a(1) _ this] Cons.prems(2) a
  show ?case by (simp add: run_append)
qed

lemma attempt_stop:
  assumes "polling s" "all_zero r \<or> 100 \<le> iterationTryOfFetchingPrePackagedCount s"
  shows "resolved (run (attempt r) s) = Some True"
    and "statusCalls (run (attempt r) s) = statusCalls s + 1"
    and "prepackagedDataStatus (run (attempt r) s) = status_of r"
    and "toaster (run (attempt r) s) = toaster s @ [SuccessToast RULE_AND_TIMELINE_PREPACKAGED_SUCCESS]"
    and "loadingCreatePrePackagedRules (run (attempt r) s) = False"
    and "timers (run (attempt r) s) = []"
    and "statusInFlight (run (attempt r) s) = 0"
    and "createCalls (run (attempt r) s) = createCalls s"
    and "createInFlight (run (attempt r) s) = createInFlight s"
    and "loading (run (attempt r) s) = loading s"
  using assms
  by (cases "timers s"; auto simp add: polling_def all_zero_def attempt_def hook_defs)+

lemma start_polling:
  assumes "idle s" "isSubscribed s"
  shows "polling (run [CreateResolved] (createElasticRules all_granted s))"
   and "iterationTryOfFetchingPrePackagedCount (run [CreateResolved] (createElasticRules all_granted s)) = 0"
   and "statusCalls (run [CreateResolved] (createElasticRules all_granted s)) = statusCalls s"
  using assms by (simp_all add: idle_def polling_def all_granted_def hook_defs)

lemma step_idle: "idle s \<Longrightarrow> step e s = (if e = Cleanup then cleanup s else s)"
  by (cases e) (simp_all add: idle_def)

lemma idle_cleanup: "idle s \<Longrightarrow> idle (cleanup s)"
  by (simp add: idle_def cleanup_def)

lemma observed_cleanup: "observed (cleanup s) = observed s"
  by (simp add: observed_def visible_def cleanup_def)

lemma run_idle: "idle s \<Longrightarrow> idle (run es s) \<and> observed (run es s) = observed s"
proof (induction es arbitrary: s)
  case Nil
  then show ?case by simp
next
  case (Cons e es)
  show ?case
  proof (cases "e = Cleanup")
    case True
    with Cons.IH [OF idle_cleanup [OF Cons.prems]] Cons.prems
    show ?thesis by (simp add: observed_cleanup)
  next
    case False
    with Cons.IH [OF Cons.prems] Cons.prems show ?thesis by (simp add: step_idle)
  qed
qed

lemma step_unsubscribed:
  "\<not> isSubscribed s \<Longrightarrow> \<not> isSubscribed (step e s) \<and> visible (step e s) = visible s"
  by (cases e) (simp_all add: visible_def hook_defs split: list.splits)

lemma unsubscribed_discards: "\<not> isSubscribed s \<Longrightarrow> visible (run es s) = visible s"
proof (induction es arbitrary: s)
  case Nil
  then show ?case by simp
next
  case (Cons e es)
  from step_unsubscribed [OF Cons.prems, of e] Cons.IH [of "step e s"]
  show ?case by simp
qed

lemma attempt_unsubscribed:
  assumes "\<not> isSubscribed s" "length (timers s) = 1" "statusInFlight s = 0"
  shows "\<not> isSubscribed (run (attempt r) s) \<and> length (timers (run (attempt r) s)) = 1 \<and>
     statusInFlight (run (attempt r) s) = 0 \<and>
     statusCalls (run (attempt r) s) = statusCalls s + 1"
  using assms by (cases "timers s") (simp_all add: attempt_def hook_defs)

lemma attempts_unsubscribed:
  assumes "\<not> isSubscribed s" "length (timers s) = 1" "statusInFlight s = 0"
  shows "statusCalls (run (attempts (replicate n r)) s) = statusCalls s + n"
  using assms
proof (induction n arbitrary: s)
  case 0
  then show ?case by simp
next
  case (Suc n)
  note a = attempt_unsubscribed [OF Suc.prems, of r]
  from Suc.IH [of "run (attempt r) s"] a show ?case by (simp add: run_append)
qed

lemma step_load:
  "length (timers s) + statusInFlight s + createInFlight s \<le> 1 \<Longrightarrow>
   length (timers (step e s)) + statusInFlight (step e s) + createInFlight (step e s) \<le> 1"
proof -
  assume a: "length (timers s) + statusInFlight s + createInFlight s \<le> 1"
  show ?thesis
  proof (cases "timers s")
    case Nil
    with a show ?thesis
      by (cases e) (auto simp add: hook_defs split: option.splits)
  next
    case (Cons i rest)
    with a have "rest = []" "statusInFlight s = 0" "createInFlight s = 0" by simp_all
    with Cons show ?thesis
      by (cases e) (simp_all add: hook_defs)
  qed
qed

lemma run_load:
  "length (timers s) + statusInFlight s + createInFlight s \<le> 1 \<Longrightarrow>
   length (timers (run es s)) + statusInFlight (run es s) + createInFlight (run es s) \<le> 1"
proof (induction es arbitrary: s)
  case Nil
  then show ?case by simp
next
  case (Cons e es)
  from Cons.IH [OF step_load [OF Cons.prems, of e]] show ?case by simp
qed

lemma triggering_start: "idle s \<Longrightarrow> triggering (createElasticRules all_granted s)"
  by (simp add: idle_def triggering_def all_granted_def hook_defs)

lemma triggering_cleanup: "triggering s \<Longrightarrow> triggering (cleanup s)"
  by (simp add: triggering_def cleanup_def)

lemma attempts_append: "attempts (xs @ ys) = attempts xs @ attempts ys"
  by (induction xs) simp_all

lemma idle_after_rejection:
  "idle (run [CreateResolved, TimerFired, StatusRejected] (createElasticRules all_granted hook_init))"
  by (simp add: idle_def hook_init_def all_granted_def hook_defs)

section \<open>The claims\<close>

text \<open>
  C1. Claim: when a status query of the polling loop fails, the invocation ends as
  failed and the failure is reported (the promise settles, a failure notification is
  emitted), and the query is not retried.

  The code does not retry, and it reports nothing. With all five inputs granted, the
  trigger fulfilled and the first status query rejected, the promise stays pending, no
  notification is ever emitted, \<^verbatim>\<open>loadingCreatePrePackagedRules\<close> stays true and exactly
  one status query was made, whatever the host does afterwards (\<open>es\<close>). The rejection
  is raised inside the timer's callback, outside the \<^verbatim>\<open>try\<close> of
  \<^verbatim>\<open>createElasticRules\<close>, whose \<^verbatim>\<open>catch\<close> reports a failed trigger.
\<close>

theorem status_failure_unreported:
  "visible (run ([CreateResolved, TimerFired, StatusRejected] @ es)
      (createElasticRules all_granted hook_init)) = (null_status, True, True, None, []) \<and>
   statusCalls (run ([CreateResolved, TimerFired, StatusRejected] @ es)
      (createElasticRules all_granted hook_init)) = 1"
proof -
  let ?s = "run [CreateResolved, TimerFired, StatusRejected] (createElasticRules all_granted hook_init)"
  have "observed (run es ?s) = observed ?s"
    using run_idle [OF idle_after_rejection] by simp
  moreover have "observed ?s = ((null_status, True, True, None, []), 1, 1)"
    by (simp add: observed_def visible_def hook_init_def all_granted_def hook_defs)
  ultimately have "observed (run es ?s) = ((null_status, True, True, None, []), 1, 1)" by simp
  then show ?thesis unfolding run_append by (simp add: observed_def)
qed

text \<open>
  C2. Claim: when no snapshot ever satisfies the convergence test, the invocation ends
  after exactly 100 status queries, with the last snapshot stored.

  The code counts an attempt before its query and stops on \<^verbatim>\<open>count > 100\<close>: after 100
  snapshots that do not converge the promise is still pending and a timer is pending
  for one more attempt; the invocation ends on the 101st query, with that snapshot
  stored.
\<close>

theorem exhausted_after_101_queries:
  "resolved (run (CreateResolved # attempts (replicate 100 (snapshot 1)))
      (createElasticRules all_granted hook_init)) = None \<and>
   length (timers (run (CreateResolved # attempts (replicate 100 (snapshot 1)))
      (createElasticRules all_granted hook_init))) = 1 \<and>
   statusCalls (run (CreateResolved # attempts (replicate 100 (snapshot 1)))
      (createElasticRules all_granted hook_init)) = 100 \<and>
   statusCalls (run (CreateResolved # attempts (replicate 100 (snapshot 1) @ [snapshot 1]))
      (createElasticRules all_granted hook_init)) = 101 \<and>
   resolved (run (CreateResolved # attempts (replicate 100 (snapshot 1) @ [snapshot 1]))
      (createElasticRules all_granted hook_init)) = Some True \<and>
   prepackagedDataStatus (run (CreateResolved # attempts (replicate 100 (snapshot 1) @ [snapshot 1]))
      (createElasticRules all_granted hook_init)) = status_of (snapshot 1)"
proof -
  let ?s1 = "run [CreateResolved] (createElasticRules all_granted hook_init)"
  let ?s100 = "run (attempts (replicate 100 (snapshot 1))) ?s1"
  have i: "idle hook_init" "isSubscribed hook_init"
    by (simp_all add: idle_def hook_init_def)
  note p = start_polling [OF i]
  have nz: "list_all (\<lambda>r. \<not> all_zero r) (replicate 100 (snapshot 1))"
    by (simp add: list_all_iff all_zero_def snapshot_def)
  have b: "iterationTryOfFetchingPrePackagedCount ?s1 + length (replicate 100 (snapshot 1)) \<le> 100"
    using p(2) by simp
  note c = attempts_continue [OF p(1) nz b]
  have pol: "polling ?s100" using c by simp
  have cnt: "all_zero (snapshot 1) \<or> 100 \<le> iterationTryOfFetchingPrePackagedCount ?s100"
    using c p(2) by simp
  note d = attempt_stop [OF pol cnt]
  have e: "run (CreateResolved # attempts (replicate 100 (snapshot 1))) (createElasticRules all_granted hook_init) = ?s100"
    by simp
  have f: "run (CreateResolved # attempts (replicate 100 (snapshot 1) @ [snapshot 1]))
      (createElasticRules all_granted hook_init) = run (attempt (snapshot 1)) ?s100"
    by (simp add: attempts_append run_append)
  have s0: "statusCalls hook_init = 0" by (simp add: hook_init_def)
  show ?thesis
    unfolding e f using c d p(3) pol s0 by (simp add: polling_def)
qed

text \<open>
  C3. Claim: once the effect is cleaned up during polling, no further status query is
  made, and a response that arrives afterwards is dropped without touching the state.

  The second half holds (\<open>unsubscribed_discards\<close>). The first does not: the cleanup
  leaves the pending timer alone, so the timer fires and its callback issues a status
  query (0 calls before, 1 after); and a response that arrives while unsubscribed takes
  the \<^verbatim>\<open>else\<close> branch, which schedules the next attempt, so \<open>n\<close> responses after the
  cleanup are \<open>n\<close> status queries, for every \<open>n\<close> and whatever the snapshots say.
\<close>

theorem queries_continue_after_cleanup:
  "statusCalls (run [CreateResolved, Cleanup] (createElasticRules all_granted hook_init)) = 0 \<and>
   statusCalls (run [CreateResolved, Cleanup, TimerFired]
      (createElasticRules all_granted hook_init)) = 1 \<and>
   statusCalls (run ([CreateResolved, Cleanup] @ attempts (replicate n r))
      (createElasticRules all_granted hook_init)) = n \<and>
   length (timers (run [CreateResolved, TimerFired, Cleanup, StatusResolved r]
      (createElasticRules all_granted hook_init))) = 1 \<and>
   statusCalls (run [CreateResolved, TimerFired, Cleanup, StatusResolved r, TimerFired]
      (createElasticRules all_granted hook_init)) = 2"
proof -
  let ?c = "run [CreateResolved, Cleanup] (createElasticRules all_granted hook_init)"
  have c: "\<not> isSubscribed ?c" "length (timers ?c) = 1" "statusInFlight ?c = 0" "statusCalls ?c = 0"
    by (simp_all add: hook_init_def all_granted_def hook_defs)
  have "statusCalls (run (attempts (replicate n r)) ?c) = n"
    using attempts_unsubscribed [OF c(1,2,3), of n r] c(4) by simp
  then have 3: "statusCalls (run ([CreateResolved, Cleanup] @ attempts (replicate n r))
      (createElasticRules all_granted hook_init)) = n"
    unfolding run_append .
  have 1: "statusCalls (run [CreateResolved, Cleanup, TimerFired]
      (createElasticRules all_granted hook_init)) = 1"
    by (simp add: hook_init_def all_granted_def hook_defs)
  have 4: "length (timers (run [CreateResolved, TimerFired, Cleanup, StatusResolved r]
      (createElasticRules all_granted hook_init))) = 1"
    by (simp add: hook_init_def all_granted_def hook_defs)
  have 5: "statusCalls (run [CreateResolved, TimerFired, Cleanup, StatusResolved r, TimerFired]
      (createElasticRules all_granted hook_init)) = 2"
    by (simp add: hook_init_def all_granted_def hook_defs)
  from c(4) 1 3 4 5 show ?thesis by blast
qed

text \<open>
  C4. For every \<open>k\<close> from 1 to 100: when the hook stays subscribed, the snapshots of
  attempts 1 to \<open>k - 1\<close> do not satisfy the convergence test and the snapshot of
  attempt \<open>k\<close> does, the invocation ends with the promise resolved to true after exactly
  \<open>k\<close> status queries, the stored status holds the seven counters of the \<open>k\<close>-th
  snapshot (and the two callbacks), one success notification is emitted, the loading
  flag is cleared and nothing is left pending.
\<close>

theorem converged_on_attempt_k:
  assumes "idle s" and "isSubscribed s"
    and "1 \<le> k" and "k \<le> 100" and "length rs = k"
    and "\<forall>i. i < k - 1 \<longrightarrow> \<not> all_zero (rs ! i)"
    and "all_zero (rs ! (k - 1))"
  shows "statusCalls (run (CreateResolved # attempts rs) (createElasticRules all_granted s)) =
      statusCalls s + k \<and>
    resolved (run (CreateResolved # attempts rs) (createElasticRules all_granted s)) = Some True \<and>
    prepackagedDataStatus (run (CreateResolved # attempts rs) (createElasticRules all_granted s)) =
      \<lparr>createPrePackagedRules = Some CreateElasticRules,
       refetchPrePackagedRulesStatus = Some FetchPrePackagedRules,
       rulesCustomInstalled = Some (rules_custom_installed (rs ! (k - 1))),
       rulesInstalled = Some (rules_installed (rs ! (k - 1))),
       rulesNotInstalled = Some (rules_not_installed (rs ! (k - 1))),
       rulesNotUpdated = Some (rules_not_updated (rs ! (k - 1))),
       timelinesInstalled = Some (timelines_installed (rs ! (k - 1))),
       timelinesNotInstalled = Some (timelines_not_installed (rs ! (k - 1))),
       timelinesNotUpdated = Some (timelines_not_updated (rs ! (k - 1)))\<rparr> \<and>
    toaster (run (CreateResolved # attempts rs) (createElasticRules all_granted s)) =
      toaster s @ [SuccessToast RULE_AND_TIMELINE_PREPACKAGED_SUCCESS] \<and>
    \<not> loadingCreatePrePackagedRules
      (run (CreateResolved # attempts rs) (createElasticRules all_granted s)) \<and>
    idle (run (CreateResolved # attempts rs) (createElasticRules all_granted s))"
proof -
  let ?s1 = "run [CreateResolved] (createElasticRules all_granted s)"
  define pre where "pre = butlast rs"
  define r where "r = last rs"
  have ne: "rs \<noteq> []" using assms(3,5) by auto
  have rs: "rs = pre @ [r]" using ne by (simp add: pre_def r_def)
  have lp: "length pre = k - 1" using assms(5) by (simp add: pre_def)
  have r: "r = rs ! (k - 1)" using ne assms(5) by (simp add: r_def last_conv_nth)
  have nz: "list_all (\<lambda>r. \<not> all_zero r) pre"
    unfolding list_all_length
  proof (intro allI impI)
    fix i assume "i < length pre"
    then have "i < k - 1" using lp by simp
    moreover from \<open>i < length pre\<close> have "pre ! i = rs ! i" by (simp add: rs nth_append)
    ultimately show "\<not> all_zero (pre ! i)" using assms(6) by simp
  qed
  note p = start_polling [OF assms(1,2)]
  have b: "iterationTryOfFetchingPrePackagedCount ?s1 + length pre \<le> 100"
    using p(2) lp assms(4) by simp
  note c = attempts_continue [OF p(1) nz b]
  let ?s2 = "run (attempts pre) ?s1"
  have pol: "polling ?s2" using c by simp
  have z: "all_zero r \<or> 100 \<le> iterationTryOfFetchingPrePackagedCount ?s2"
    using assms(7) r by simp
  note d = attempt_stop [OF pol z]
  have f: "run (CreateResolved # attempts rs) (createElasticRules all_granted s) =
      run (attempt r) ?s2"
    by (simp add: rs attempts_append run_append)
  have v: "toaster ?s2 = toaster ?s1" using c by (simp add: visible_def)
  have t1: "toaster ?s1 = toaster s" "createInFlight ?s1 = 0"
    using assms(1,2) by (simp_all add: idle_def all_granted_def hook_defs)
  have ci: "createInFlight ?s2 = 0" using c t1(2) by simp
  show ?thesis
    unfolding f using c d p(3) lp assms(3) v t1 ci r by (simp add: idle_def status_of_def)
qed

theorem converged_on_attempt_k_witness:
  "idle hook_init \<and> isSubscribed hook_init \<and>
   statusCalls (run (CreateResolved # attempts [snapshot 2, snapshot 1, snapshot 0])
      (createElasticRules all_granted hook_init)) = 3 \<and>
   resolved (run (CreateResolved # attempts [snapshot 2, snapshot 1, snapshot 0])
      (createElasticRules all_granted hook_init)) = Some True \<and>
   prepackagedDataStatus (run (CreateResolved # attempts [snapshot 2, snapshot 1, snapshot 0])
      (createElasticRules all_granted hook_init)) =
     \<lparr>createPrePackagedRules = Some CreateElasticRules,
      refetchPrePackagedRulesStatus = Some FetchPrePackagedRules,
      rulesCustomInstalled = Some 0, rulesInstalled = Some 5, rulesNotInstalled = Some 0,
      rulesNotUpdated = Some 0, timelinesInstalled = Some 3, timelinesNotInstalled = Some 0,
      timelinesNotUpdated = Some 0\<rparr>"
proof -
  have h: "idle hook_init" "isSubscribed hook_init" by (simp_all add: idle_def hook_init_def)
  have k: "1 \<le> (3::nat)" "(3::nat) \<le> 100" "length [snapshot 2, snapshot 1, snapshot 0] = 3"
    by simp_all
  have n: "\<forall>i. i < (3::nat) - 1 \<longrightarrow> \<not> all_zero ([snapshot 2, snapshot 1, snapshot 0] ! i)"
    by (simp add: all_zero_def snapshot_def less_Suc_eq nth_Cons')
  have z: "all_zero ([snapshot 2, snapshot 1, snapshot 0] ! (3 - 1))"
    by (simp add: all_zero_def snapshot_def)
  have s0: "statusCalls hook_init = 0" by (simp add: hook_init_def)
  from converged_on_attempt_k [OF h k n z] h s0 show ?thesis by (simp add: snapshot_def)
qed

text \<open>
  C5, as stated (every failed trigger delivers exactly one failure event and ends the
  invocation as failed), fails when the effect was cleaned up before the failure
  arrives, as it is when the cleanup's abort is what makes the request fail: the
  \<^verbatim>\<open>catch\<close> is guarded by \<^verbatim>\<open>isSubscribed\<close>, so nothing is delivered, the promise stays
  pending and the loading flag stays set.
\<close>

theorem trigger_failure_unsubscribed_counterexample:
  "toaster (run [Cleanup, CreateRejected] (createElasticRules all_granted hook_init)) = [] \<and>
   resolved (run [Cleanup, CreateRejected] (createElasticRules all_granted hook_init)) = None \<and>
   loadingCreatePrePackagedRules
     (run [Cleanup, CreateRejected] (createElasticRules all_granted hook_init))"
  by (simp add: hook_init_def all_granted_def hook_defs)

text \<open>
  C5, amended. When the trigger request fails, no status query is made, then or later
  (\<open>es\<close> is whatever the host does afterwards), no further trigger request is made and
  nothing is left pending, whether or not the hook is still subscribed. If the hook is
  still subscribed when the failure arrives, the promise resolves to false,
  \<^verbatim>\<open>loadingCreatePrePackagedRules\<close> is cleared, exactly one failure notification is
  appended to the sink and the stored status is untouched.
\<close>

theorem trigger_failure_outcome:
  assumes "triggering s"
  shows "statusCalls (run (CreateRejected # es) s) = statusCalls s \<and>
    createCalls (run (CreateRejected # es) s) = createCalls s \<and>
    idle (run (CreateRejected # es) s) \<and>
    (isSubscribed s \<longrightarrow>
       visible (run (CreateRejected # es) s) =
         (prepackagedDataStatus s, loading s, False, Some False,
          toaster s @ [ErrorToast RULE_AND_TIMELINE_PREPACKAGED_FAILURE]))"
proof -
  let ?f = "step CreateRejected s"
  have i: "idle ?f" using assms by (simp add: triggering_def idle_def hook_defs)
  have c: "statusCalls ?f = statusCalls s" "createCalls ?f = createCalls s"
    using assms by (simp_all add: triggering_def hook_defs)
  have o: "visible ?f =
      (prepackagedDataStatus s, loading s, False, Some False,
       toaster s @ [ErrorToast RULE_AND_TIMELINE_PREPACKAGED_FAILURE])" if "isSubscribed s"
    using assms that by (simp add: triggering_def visible_def hook_defs)
  from run_idle [OF i, of es] c o show ?thesis by (simp add: observed_def)
qed

theorem trigger_failure_outcome_witness:
  "triggering (createElasticRules all_granted hook_init) \<and>
   isSubscribed (createElasticRules all_granted hook_init) \<and>
   visible (run [CreateRejected, TimerFired, StatusResolved (snapshot 0)]
      (createElasticRules all_granted hook_init)) =
     (null_status, True, False, Some False, [ErrorToast RULE_AND_TIMELINE_PREPACKAGED_FAILURE]) \<and>
   statusCalls (run [CreateRejected, TimerFired, StatusResolved (snapshot 0)]
      (createElasticRules all_granted hook_init)) = 0 \<and>
   triggering (cleanup (createElasticRules all_granted hook_init)) \<and>
   statusCalls (run [CreateRejected, TimerFired, StatusResolved (snapshot 0)]
      (cleanup (createElasticRules all_granted hook_init))) = 0"
proof -
  have h: "triggering (createElasticRules all_granted hook_init)"
    "isSubscribed (createElasticRules all_granted hook_init)"
    "triggering (cleanup (createElasticRules all_granted hook_init))"
    by (simp_all add: triggering_def hook_init_def all_granted_def hook_defs)
  have v: "prepackagedDataStatus (createElasticRules all_granted hook_init) = null_status"
    "loading (createElasticRules all_granted hook_init)"
    "toaster (createElasticRules all_granted hook_init) = []"
    "statusCalls (createElasticRules all_granted hook_init) = 0"
    "statusCalls (cleanup (createElasticRules all_granted hook_init)) = 0"
    by (simp_all add: hook_init_def all_granted_def hook_defs)
  from trigger_failure_outcome [OF h(1), of "[TimerFired, StatusResolved (snapshot 0)]"]
    trigger_failure_outcome [OF h(3), of "[TimerFired, StatusResolved (snapshot 0)]"] h v
  show ?thesis by simp
qed

text \<open>
  C6. At every moment of an invocation (after any sequence \<open>es\<close> of events), the
  pending timers, the status queries in flight and the trigger requests in flight are
  at most one in total: at most one timer, at most one status query, and never a timer
  together with a query. A query is only issued by a timer that fired, and a timer is
  only set when the trigger or the previous query has settled.
\<close>

theorem one_timer_or_query_at_a_time:
  assumes "idle s"
  shows "length (timers (run es (createElasticRules p s))) +
     statusInFlight (run es (createElasticRules p s)) +
     createInFlight (run es (createElasticRules p s)) \<le> 1"
proof -
  have "length (timers (createElasticRules p s)) + statusInFlight (createElasticRules p s) +
      createInFlight (createElasticRules p s) \<le> 1"
    using assms by (simp add: idle_def hook_defs split: option.splits)
  then show ?thesis by (rule run_load)
qed

theorem one_timer_or_query_at_a_time_witness:
  "idle hook_init \<and>
   length (timers (run [CreateResolved, TimerFired, StatusResolved (snapshot 1)]
      (createElasticRules all_granted hook_init))) +
   statusInFlight (run [CreateResolved, TimerFired, StatusResolved (snapshot 1)]
      (createElasticRules all_granted hook_init)) +
   createInFlight (run [CreateResolved, TimerFired, StatusResolved (snapshot 1)]
      (createElasticRules all_granted hook_init)) \<le> 1"
proof -
  have h: "idle hook_init" by (simp add: idle_def hook_init_def)
  from one_timer_or_query_at_a_time
    [OF h, of "[CreateResolved, TimerFired, StatusResolved (snapshot 1)]" all_granted] h
  show ?thesis by blast
qed

text \<open>
  C7. In a subscribed hook, an attempt within the budget (at most 99 attempts were
  counted before it) ends the invocation with the promise resolved to true exactly when
  \<^verbatim>\<open>rules_not_installed\<close>, \<^verbatim>\<open>rules_not_updated\<close>, \<^verbatim>\<open>timelines_not_installed\<close> and
  \<^verbatim>\<open>timelines_not_updated\<close> of its snapshot are all 0; it leaves the hook polling, with
  a timer for the next attempt, exactly when one of them is not 0.
\<close>

theorem converges_iff_counters_zero:
  assumes "polling s" and "iterationTryOfFetchingPrePackagedCount s < 100"
  shows "(resolved (run (attempt r) s) = Some True) =
      (rules_not_installed r = 0 \<and> rules_not_updated r = 0 \<and>
       timelines_not_installed r = 0 \<and> timelines_not_updated r = 0) \<and>
    polling (run (attempt r) s) =
      (\<not> (rules_not_installed r = 0 \<and> rules_not_updated r = 0 \<and>
          timelines_not_installed r = 0 \<and> timelines_not_updated r = 0))"
proof (cases "all_zero r")
  case True
  then have "all_zero r \<or> 100 \<le> iterationTryOfFetchingPrePackagedCount s" by simp
  from attempt_stop(1) [OF assms(1) this] True show ?thesis
    by (simp add: all_zero_def polling_def)
next
  case False
  from attempt_continue(1) [OF assms(1) False assms(2)] False show ?thesis
    by (auto simp add: all_zero_def polling_def)
qed

theorem converges_iff_counters_zero_witness:
  "polling (run [CreateResolved] (createElasticRules all_granted hook_init)) \<and>
   iterationTryOfFetchingPrePackagedCount
     (run [CreateResolved] (createElasticRules all_granted hook_init)) < 100 \<and>
   resolved (run (attempt (snapshot 0))
     (run [CreateResolved] (createElasticRules all_granted hook_init))) = Some True \<and>
   polling (run (attempt (snapshot 1))
     (run [CreateResolved] (createElasticRules all_granted hook_init)))"
proof -
  have h: "polling (run [CreateResolved] (createElasticRules all_granted hook_init))"
    "iterationTryOfFetchingPrePackagedCount
       (run [CreateResolved] (createElasticRules all_granted hook_init)) < 100"
    by (simp_all add: polling_def hook_init_def all_granted_def hook_defs)
  from converges_iff_counters_zero [OF h, of "snapshot 0"]
    converges_iff_counters_zero [OF h, of "snapshot 1"] h
  show ?thesis by (simp add: snapshot_def)
qed

text \<open>
  C8. Running the cleanup twice leaves the same state as running it once. After an
  invocation has ended, a cleanup changes nothing that can be observed of it, now or
  after any later events \<open>es\<close>: the hook's return value, the promise, the notifications
  and the API calls are what they were, and what they would be without the cleanup.
\<close>

theorem cleanup_idempotent:
  "run [Cleanup, Cleanup] s = run [Cleanup] s \<and>
   (terminal s \<longrightarrow>
      observed (run (Cleanup # es) s) = observed s \<and>
      observed (run (Cleanup # es) s) = observed (run es s) \<and>
      terminal (run (Cleanup # es) s))"
proof -
  have 1: "run [Cleanup, Cleanup] s = run [Cleanup] s" by (simp add: cleanup_def)
  have 2: "observed (run (Cleanup # es) s) = observed s \<and>
      observed (run (Cleanup # es) s) = observed (run es s) \<and>
      terminal (run (Cleanup # es) s)" if t: "terminal s"
  proof -
    have i: "idle s" using t by (simp add: terminal_def)
    note a = run_idle [OF idle_cleanup [OF i], of es]
    note b = run_idle [OF i, of es]
    have "resolved (run es (cleanup s)) = resolved s"
      using a by (simp add: observed_def visible_def cleanup_def)
    with a b t show ?thesis by (simp add: observed_cleanup terminal_def)
  qed
  from 1 2 show ?thesis by blast
qed

theorem cleanup_idempotent_witness:
  "terminal (run (CreateResolved # attempts [snapshot 0]) (createElasticRules all_granted hook_init)) \<and>
   observed (run [Cleanup, TimerFired, Cleanup]
      (run (CreateResolved # attempts [snapshot 0]) (createElasticRules all_granted hook_init))) =
   observed (run (CreateResolved # attempts [snapshot 0]) (createElasticRules all_granted hook_init))"
proof -
  have h: "terminal (run (CreateResolved # attempts [snapshot 0]) (createElasticRules all_granted hook_init))"
    by (simp add: terminal_def idle_def attempt_def snapshot_def hook_init_def all_granted_def hook_defs)
  from cleanup_idempotent [of "run (CreateResolved # attempts [snapshot 0]) (createElasticRules all_granted hook_init)" "[TimerFired, Cleanup]"] h
  show ?thesis by blast
qed

text \<open>
  C9. When one of the five inputs is \<^verbatim>\<open>null\<close> or \<^verbatim>\<open>false\<close>, \<^verbatim>\<open>createElasticRules\<close>
  only resolves its promise to false: no state cell and no loading flag changes, no
  trigger request and no status query is made, then or (nothing being left with the
  host) after any later events \<open>es\<close>.
\<close>

theorem gate_refuses:
  assumes "canUserCRUD p \<noteq> Some True \<or> hasIndexWrite p \<noteq> Some True \<or>
    isAuthenticated p \<noteq> Some True \<or> hasEncryptionKey p \<noteq> Some True \<or>
    isSignalIndexExists p \<noteq> Some True"
  shows "createElasticRules p s = s\<lparr>resolved := Some False\<rparr> \<and>
    (idle s \<longrightarrow> observed (run es (createElasticRules p s)) = observed (s\<lparr>resolved := Some False\<rparr>))"
proof -
  have 1: "createElasticRules p s = s\<lparr>resolved := Some False\<rparr>"
    using assms by (auto simp add: hook_defs)
  have "idle (s\<lparr>resolved := Some False\<rparr>)" if "idle s" using that by (simp add: idle_def)
  from run_idle [OF this, of es] 1 show ?thesis by simp
qed

theorem gate_refuses_witness:
  "hasIndexWrite (all_granted\<lparr>hasIndexWrite := None\<rparr>) \<noteq> Some True \<and>
   createElasticRules (all_granted\<lparr>hasIndexWrite := None\<rparr>) hook_init =
     hook_init\<lparr>resolved := Some False\<rparr> \<and>
   idle hook_init \<and>
   observed (run [CreateResolved, TimerFired]
       (createElasticRules (all_granted\<lparr>hasIndexWrite := None\<rparr>) hook_init)) =
     observed (hook_init\<lparr>resolved := Some False\<rparr>)"
proof -
  have h: "hasIndexWrite (all_granted\<lparr>hasIndexWrite := None\<rparr>) \<noteq> Some True" by simp
  have i: "idle hook_init" by (simp add: idle_def hook_init_def)
  from gate_refuses [of "all_granted\<lparr>hasIndexWrite := None\<rparr>" hook_init "[CreateResolved, TimerFired]"] h i
  show ?thesis by blast
qed

text \<open>
  C10. When the status request of \<^verbatim>\<open>fetchPrePackagedRules\<close> fails while the hook is
  subscribed, the whole status record is replaced in one update by the record whose
  fields are all \<^verbatim>\<open>null\<close> (the two callbacks and the seven counters, so nothing of an
  earlier snapshot is kept), exactly one failure notification is appended, and
  \<^verbatim>\<open>loading\<close> is set to false.
\<close>

theorem fetch_failure_resets_status:
  assumes "isSubscribed s"
  shows "fetchPrePackagedRules_resumed Rejected s =
    s\<lparr>prepackagedDataStatus :=
        \<lparr>createPrePackagedRules = None, refetchPrePackagedRulesStatus = None,
         rulesCustomInstalled = None, rulesInstalled = None, rulesNotInstalled = None,
         rulesNotUpdated = None, timelinesInstalled = None, timelinesNotInstalled = None,
         timelinesNotUpdated = None\<rparr>,
      toaster := toaster s @ [ErrorToast RULE_AND_TIMELINE_FETCH_FAILURE],
      loading := False\<rparr>"
  using assms
  by (simp add: fetchPrePackagedRules_resumed_def errorToToaster_def null_status_def)

theorem fetch_failure_resets_status_witness:
  "isSubscribed (fetchPrePackagedRules (fetchPrePackagedRules_resumed (Fulfilled (snapshot 4)) hook_init)) \<and>
   prepackagedDataStatus (fetchPrePackagedRules (fetchPrePackagedRules_resumed (Fulfilled (snapshot 4)) hook_init)) =
     status_of (snapshot 4) \<and>
   prepackagedDataStatus (fetchPrePackagedRules_resumed Rejected
     (fetchPrePackagedRules (fetchPrePackagedRules_resumed (Fulfilled (snapshot 4)) hook_init))) = null_status \<and>
   toaster (fetchPrePackagedRules_resumed Rejected
     (fetchPrePackagedRules (fetchPrePackagedRules_resumed (Fulfilled (snapshot 4)) hook_init))) =
     [ErrorToast RULE_AND_TIMELINE_FETCH_FAILURE] \<and>
   \<not> loading (fetchPrePackagedRules_resumed Rejected
     (fetchPrePackagedRules (fetchPrePackagedRules_resumed (Fulfilled (snapshot 4)) hook_init)))"
proof -
  let ?s = "fetchPrePackagedRules (fetchPrePackagedRules_resumed (Fulfilled (snapshot 4)) hook_init)"
  have h: "isSubscribed ?s"
    by (simp add: fetchPrePackagedRules_def fetchPrePackagedRules_resumed_def hook_init_def)
  have p: "prepackagedDataStatus ?s = status_of (snapshot 4)" "toaster ?s = []"
    by (simp_all add: fetchPrePackagedRules_def fetchPrePackagedRules_resumed_def hook_init_def)
  from fetch_failure_resets_status [OF h] h p show ?thesis
    by (simp add: null_status_def)
qed

end
